theory Spec2Isabelle
  imports Complex_Main "HOL-Library.Word"
begin

unbundle bit_operations_syntax

section \<open>Code tables of \<^verbatim>\<open>lib/iso14229_1.py\<close>\<close>

text \<open>
  Python integers are unbounded, so every identifier, level and message byte is an \<open>int\<close>.
  A message is the Python list of its bytes.
\<close>

type_synonym message = "int list"

subsection \<open>\<^verbatim>\<open>NegativeResponseCodes\<close>, \<^verbatim>\<open>ServiceID\<close>, \<^verbatim>\<open>Constants\<close>\<close>

definition SUB_FUNCTION_NOT_SUPPORTED :: int where
  "SUB_FUNCTION_NOT_SUPPORTED = 0x12"

definition REQUEST_OUT_OF_RANGE :: int where
  "REQUEST_OUT_OF_RANGE = 0x31"

definition SECURITY_ACCESS_DENIED :: int where
  "SECURITY_ACCESS_DENIED = 0x33"

definition REQUEST_CORRECTLY_RECEIVED_RESPONSE_PENDING :: int where
  "REQUEST_CORRECTLY_RECEIVED_RESPONSE_PENDING = 0x78"

definition DIAGNOSTIC_SESSION_CONTROL :: int where
  "DIAGNOSTIC_SESSION_CONTROL = 0x10"

definition READ_DATA_BY_IDENTIFIER :: int where
  "READ_DATA_BY_IDENTIFIER = 0x22"

definition ROUTINE_CONTROL :: int where
  "ROUTINE_CONTROL = 0x31"

definition NR_SI :: int where
  "NR_SI = 0x7F"

subsection \<open>\<^verbatim>\<open>Services.DiagnosticSessionControl\<close>\<close>

definition DiagnosticSessionControl_service_id :: int where
  "DiagnosticSessionControl_service_id = DIAGNOSTIC_SESSION_CONTROL"

definition DiagnosticSessionControl_valid_responses :: "int list" where
  "DiagnosticSessionControl_valid_responses = [0x7F, 0x50]"

definition DEFAULT_SESSION :: int where
  "DEFAULT_SESSION = 0x01"

definition PROGRAMMING_SESSION :: int where
  "PROGRAMMING_SESSION = 0x02"

definition EXTENDED_DIAGNOSTIC_SESSION :: int where
  "EXTENDED_DIAGNOSTIC_SESSION = 0x03"

definition SAFETY_SYSTEM_DIAGNOSTIC_SESSION :: int where
  "SAFETY_SYSTEM_DIAGNOSTIC_SESSION = 0x04"

definition VEHICLE_MANUFACTURER_SESSION_MIN :: int where
  "VEHICLE_MANUFACTURER_SESSION_MIN = 0x40"

definition VEHICLE_MANUFACTURER_SESSION_MAX :: int where
  "VEHICLE_MANUFACTURER_SESSION_MAX = 0x5F"

definition SYSTEM_SUPPLIER_SESSION_MIN :: int where
  "SYSTEM_SUPPLIER_SESSION_MIN = 0x60"

definition SYSTEM_SUPPLIER_SESSION_MAX :: int where
  "SYSTEM_SUPPLIER_SESSION_MAX = 0x7E"

text \<open>
  \<^verbatim>\<open>DiagnosticSessionType.is_valid_session\<close>. The source compares with \<^verbatim>\<open>is\<close>; the
  left operand is \<^verbatim>\<open>0x7f & sub_function\<close>, an integer in 0..127, and the right operands
  are 1..4, for which identity of integer objects coincides with equality in CPython.
\<close>

definition is_valid_session :: "int \<Rightarrow> bool" where
  "is_valid_session sub_function =
     (let sub_function = 0x7f AND sub_function in
      if (sub_function = DEFAULT_SESSION
          \<or> sub_function = PROGRAMMING_SESSION
          \<or> sub_function = EXTENDED_DIAGNOSTIC_SESSION
          \<or> sub_function = SAFETY_SYSTEM_DIAGNOSTIC_SESSION
          \<or> (sub_function \<le> VEHICLE_MANUFACTURER_SESSION_MAX \<and>
              sub_function \<ge> VEHICLE_MANUFACTURER_SESSION_MIN)
          \<or> (sub_function \<le> SYSTEM_SUPPLIER_SESSION_MAX \<and>
              sub_function \<ge> SYSTEM_SUPPLIER_SESSION_MIN))
      then True
      else False)"

subsection \<open>\<^verbatim>\<open>Services.SecurityAccess.RequestSeedOrSendKey\<close>\<close>

definition REQUEST_SEED_MIN :: int where
  "REQUEST_SEED_MIN = 0x01"

definition REQUEST_SEED_MAX :: int where
  "REQUEST_SEED_MAX = 0x41"

definition SEND_KEY_MIN :: int where
  "SEND_KEY_MIN = 0x02"

definition SEND_KEY_MAX :: int where
  "SEND_KEY_MAX = 0x42"

definition is_valid_request_seed_level :: "int \<Rightarrow> bool" where
  "is_valid_request_seed_level sub_function =
     (let v = sub_function AND 0x7F;
          valid_interval = (REQUEST_SEED_MIN \<le> v \<and> v \<le> REQUEST_SEED_MAX);
          is_odd = (v mod 2 = 1)
      in valid_interval \<and> is_odd)"

definition is_valid_send_key_level :: "int \<Rightarrow> bool" where
  "is_valid_send_key_level sub_function =
     (let v = sub_function AND 0x7F;
          valid_interval = (SEND_KEY_MIN \<le> v \<and> v \<le> SEND_KEY_MAX);
          is_even = (v mod 2 = 0)
      in valid_interval \<and> is_even)"

definition get_send_key_for_request_seed :: "int \<Rightarrow> int" where
  "get_send_key_for_request_seed seed = seed + 1"

section \<open>The protocol client \<^verbatim>\<open>Iso14229_1\<close>\<close>

definition get_service_response_id :: "int \<Rightarrow> int" where
  "get_service_response_id identifier = identifier + 0x40"


subsection \<open>The transport and the clock, as the client sees them\<close>

text \<open>
  The transport layer and the clock are outside the client. A run is determined by what they
  answer: \<open>clock\<close> holds the successive readings of \<^verbatim>\<open>time.clock()\<close> (in seconds),
  \<open>indications\<close> the successive results of \<^verbatim>\<open>tp.indication\<close> (\<open>None\<close> when
  the transport times out; a transport with nothing left to deliver times out), and
  \<open>requests\<close> collects what the client hands to \<^verbatim>\<open>tp.send_request\<close>.
  A call that needs more clock readings than the run provides has no result (\<open>None\<close>).
\<close>

record transport =
  clock :: "rat list"
  indications :: "message option list"
  requests :: "message list"

definition send_request :: "message \<Rightarrow> transport \<Rightarrow> transport" where
  "send_request data_bytes tp = tp\<lparr>requests := requests tp @ [data_bytes]\<rparr>"

definition indication :: "transport \<Rightarrow> message option \<times> transport" where
  "indication tp =
     (case indications tp of
        [] \<Rightarrow> (None, tp)
      | r # rest \<Rightarrow> (r, tp\<lparr>indications := rest\<rparr>))"

text \<open>The test of lines 390-392 that sends \<^verbatim>\<open>receive_response\<close> round its loop again.\<close>

definition keeps_waiting :: "message option \<Rightarrow> bool" where
  "keeps_waiting response =
     (case response of
        None \<Rightarrow> False
      | Some r \<Rightarrow> length r > 3 \<and> r ! 0 = NR_SI
                  \<and> r ! 2 = REQUEST_CORRECTLY_RECEIVED_RESPONSE_PENDING)"

fun receive_loop ::
  "rat \<Rightarrow> rat \<Rightarrow> rat list \<Rightarrow> transport \<Rightarrow> (message option \<times> transport) option" where
  "receive_loop start_time wait_window [] tp = None"
| "receive_loop start_time wait_window (current_time # later) tp =
     (if current_time - start_time > wait_window then Some (None, tp\<lparr>clock := later\<rparr>)
      else
        (let (response, tp1) = indication tp in
         if keeps_waiting response then receive_loop start_time wait_window later tp1
         else Some (response, tp1\<lparr>clock := later\<rparr>)))"

definition receive_response :: "rat \<Rightarrow> transport \<Rightarrow> (message option \<times> transport) option" where
  "receive_response wait_window tp =
     (case clock tp of
        [] \<Rightarrow> None
      | start_time # later \<Rightarrow> receive_loop start_time wait_window later tp)"

definition is_positive_response :: "message option \<Rightarrow> bool" where
  "is_positive_response response =
     (case response of
        None \<Rightarrow> False
      | Some r \<Rightarrow> length r > 0 \<and> r ! 0 \<noteq> NR_SI)"

text \<open>
  \<^verbatim>\<open>read_data_by_identifier\<close>; \<open>p3_client\<close> is the attribute \<^verbatim>\<open>P3_CLIENT\<close> of the
  client (5 unless a scanner has overwritten it). Python's \<^verbatim>\<open>>>\<close> on integers is the
  flooring shift \<open>drop_bit\<close>.
\<close>

definition rdbi_request :: "int list \<Rightarrow> message" where
  "rdbi_request identifier =
     (let num_dids = length identifier;
          request = (replicate (num_dids * 2 + 1) 0)[0 := READ_DATA_BY_IDENTIFIER]
      in fold (\<lambda>i request.
                 (request[i * 2 + 1 := drop_bit 8 (identifier ! i) AND 0xFF])
                         [i * 2 + 2 := identifier ! i AND 0xFF])
              [0..<num_dids] request)"

definition read_data_by_identifier ::
  "rat \<Rightarrow> int list \<Rightarrow> transport \<Rightarrow> (message option \<times> transport) option" where
  "read_data_by_identifier p3_client identifier tp =
     (let response = Some [];
          num_dids = length identifier
      in if num_dids > 0
         then receive_response p3_client (send_request (rdbi_request identifier) tp)
         else Some (response, tp))"


section \<open>The scanners of \<^verbatim>\<open>modules/uds.py\<close>\<close>

text \<open>Exceptions the modelled code can raise. Under Python 3 an order comparison with
  \<^verbatim>\<open>None\<close> raises \<^verbatim>\<open>TypeError\<close>.\<close>

datatype py_error = ValueError | TypeError | IndexError

text \<open>\<^verbatim>\<open>range(start, stop)\<close> and \<^verbatim>\<open>range(start, stop, -1)\<close>, materialised.\<close>

definition range_up :: "int \<Rightarrow> int \<Rightarrow> int list" where
  "range_up start stop = [start..stop - 1]"

definition range_down :: "int \<Rightarrow> int \<Rightarrow> int list" where
  "range_down start stop = map (\<lambda>k. start - int k) [0..<nat (start - stop)]"

subsection \<open>\<^verbatim>\<open>make_did_range\<close>\<close>

text \<open>The chained iterator is the concatenation of its parts; the flags are used for their
  truth value only.\<close>

definition make_did_range ::
  "bool \<Rightarrow> bool \<Rightarrow> bool \<Rightarrow> int option \<Rightarrow> int option \<Rightarrow> py_error + int list" where
  "make_did_range is_oem is_supplier is_safety min_id max_id =
     (let id_range = [];
          id_range =
            (if is_oem
             then range_up 0x0100 (0xA5FF + 1) @ range_up 0xA800 (0xACFF + 1)
                  @ range_up 0xB000 (0xB1FF + 1) @ range_up 0xC200 (0xC2FF + 1)
                  @ range_up 0xCF00 (0xEFFF + 1)
             else id_range);
          id_range =
            (if is_supplier then id_range @ range_up 0xf000 (0xfeff + 1) else id_range);
          id_range =
            (if is_safety
             then id_range @ range_up 0xf000 (0xfeff + 1) @ range_up 0xfa19 (0xfaff + 1)
             else id_range)
      in if min_id \<noteq> None \<or> max_id \<noteq> None then
           (case (min_id, max_id) of
              (Some mn, Some mx) \<Rightarrow>
                if mn > mx then Inl ValueError
                else
                  (let mn = (if mn < 0 then 0x0 else mn);
                       mx = (if mx > 0xffff then 0xffff else mx)
                   in Inr (id_range @ range_up mn (mx + 1)))
            | _ \<Rightarrow> Inl TypeError)
         else if \<not> is_oem \<and> \<not> is_supplier then Inr (range_up 0x0 (0xffff + 1))
         else Inr id_range)"

subsection \<open>\<^verbatim>\<open>scan_routine_control\<close>\<close>

definition routine_id_range ::
  "bool \<Rightarrow> bool \<Rightarrow> int option \<Rightarrow> int option \<Rightarrow> py_error + int list" where
  "routine_id_range is_oem is_supplier min_id max_id =
     (let rng = [];
          rng = (if is_oem then range_up 0x0200 (0xdfff + 1) else rng);
          rng = (if is_supplier then rng @ range_up 0xf000 (0xfeff + 1) else rng)
      in if min_id \<noteq> None \<or> max_id \<noteq> None then
           (case (min_id, max_id) of
              (Some mn, Some mx) \<Rightarrow>
                if mn > mx then Inl ValueError
                else
                  (let mn = (if mn < 0 then 0x0 else mn);
                       mx = (if mx > 0xffff then 0xffff else mx)
                   in Inr (rng @ range_up mn (mx + 1)))
            | _ \<Rightarrow> Inl TypeError)
         else if \<not> is_oem \<and> \<not> is_supplier then Inr (range_up 0x0 (0xffff + 1))
         else Inr rng)"

text \<open>
  The method \<^verbatim>\<open>uds.routine_control\<close> is not part of the client as given; what it returns
  is the reply of the ECU or \<^verbatim>\<open>None\<close>. The scan takes the successive results of its
  calls as the list \<open>replies\<close>; once the list is used up every further call times out.
\<close>

definition routine_control :: "message option list \<Rightarrow> message option \<times> message option list" where
  "routine_control replies = (case replies of [] \<Rightarrow> (None, []) | r # rest \<Rightarrow> (r, rest))"

text \<open>Lines 589-606: what one reply adds to \<^verbatim>\<open>routine_map\<close>. Reading a list beyond
  its end raises \<^verbatim>\<open>IndexError\<close>; \<^verbatim>\<open><<\<close> is \<open>push_bit\<close>.\<close>

definition record_routine ::
  "int \<Rightarrow> message option \<Rightarrow> (int \<times> string) list \<Rightarrow> py_error + (int \<times> string) list" where
  "record_routine routine_id response routine_map =
     (if is_positive_response response then
        (case response of
           None \<Rightarrow> Inl TypeError
         | Some r \<Rightarrow>
             if length r > 3
             then Inr (routine_map @ [(push_bit 8 (r ! 2) OR r ! 3, ''?? Success ?? how'')])
             else Inl IndexError)
      else
        (case response of
           None \<Rightarrow> Inr routine_map
         | Some r \<Rightarrow>
             if length r \<le> 1 then Inl IndexError
             else if r ! 1 = ROUTINE_CONTROL then
               (if length r \<le> 2 then Inl IndexError
                else if r ! 2 = REQUEST_OUT_OF_RANGE then Inr routine_map
                else if r ! 2 = SUB_FUNCTION_NOT_SUPPORTED
                  then Inr (routine_map @ [(routine_id, ''SUPPORTED_NO_SECURITY'')])
                else if r ! 2 = SECURITY_ACCESS_DENIED
                  then Inr (routine_map @ [(routine_id, ''SUPPORTED_SECURITY_ACCESS_DENIED'')])
                else Inr routine_map)
             else Inr routine_map))"

fun scan_routines ::
  "int list \<Rightarrow> message option list \<Rightarrow> (int \<times> string) list \<Rightarrow> py_error + (int \<times> string) list"
  where
  "scan_routines [] replies routine_map = Inr routine_map"
| "scan_routines (routine_id # rest) replies routine_map =
     (let (response, replies) = routine_control replies;
          (response, replies) =
            (if response = None then routine_control replies else (response, replies))
      in case record_routine routine_id response routine_map of
           Inl e \<Rightarrow> Inl e
         | Inr routine_map \<Rightarrow> scan_routines rest replies routine_map)"

definition scan_routine_control ::
  "bool \<Rightarrow> bool \<Rightarrow> int option \<Rightarrow> int option \<Rightarrow> message option list
     \<Rightarrow> py_error + (int \<times> string) list" where
  "scan_routine_control is_oem is_supplier min_id max_id replies =
     (case routine_id_range is_oem is_supplier min_id max_id of
        Inl e \<Rightarrow> Inl e
      | Inr rng \<Rightarrow> scan_routines rng replies [])"

subsection \<open>\<^verbatim>\<open>uds_discovery\<close>\<close>

text \<open>
  The bus as the scanner sees it: \<open>now\<close> holds the successive readings of
  \<^verbatim>\<open>time.time()\<close>, \<open>rx\<close> the successive results of \<^verbatim>\<open>tp.bus.recv(0)\<close> (a bus
  with nothing left to deliver answers \<^verbatim>\<open>None\<close>), and \<open>trace\<close> records, in order,
  every action of the scanner on the bus. A run that needs more clock readings than \<open>now\<close>
  provides has no result.
\<close>

record can_msg =
  arbitration_id :: int
  data :: "int list"

datatype bus_event =
  Open_bus | Auto_blacklist rat | Transmit int | Set_filter int | Clear_filters

record bus =
  now :: "rat list"
  rx :: "can_msg option list"
  trace :: "bus_event list"

definition recv :: "bus \<Rightarrow> can_msg option \<times> bus" where
  "recv b = (case rx b of [] \<Rightarrow> (None, b) | m # rest \<Rightarrow> (m, b\<lparr>rx := rest\<rparr>))"

definition emit :: "bus_event \<Rightarrow> bus \<Rightarrow> bus" where
  "emit e b = b\<lparr>trace := trace b @ [e]\<rparr>"

definition VERIFICATION_BACKTRACK :: int where
  "VERIFICATION_BACKTRACK = 5"

definition VERIFICATION_EXTRA_DELAY :: rat where
  "VERIFICATION_EXTRA_DELAY = 5 / 10"

definition is_valid_response :: "can_msg \<Rightarrow> bool" where
  "is_valid_response message =
     (length (data message) \<ge> 2
      \<and> data message ! 1 \<in> set DiagnosticSessionControl_valid_responses)"

text \<open>Lines 199--212: the wait for a reply to one verification probe.\<close>

fun await_verification :: "rat \<Rightarrow> rat list \<Rightarrow> bus \<Rightarrow> (bool \<times> bus) option" where
  "await_verification verification_end_time [] b = None"
| "await_verification verification_end_time (t # later) b =
     (if t < verification_end_time then
        (let (verification_msg, b1) = recv b in
         case verification_msg of
           None \<Rightarrow> await_verification verification_end_time later b1
         | Some vm \<Rightarrow>
             if is_valid_response vm then Some (True, b1\<lparr>now := later\<rparr>)
             else await_verification verification_end_time later b1)
      else Some (False, b\<lparr>now := later\<rparr>))"

text \<open>Lines 193--221: the loop over \<^verbatim>\<open>verify_id_range\<close>; the result is the verified
  arbitration id, if any.\<close>

fun verify_backtrack :: "rat \<Rightarrow> int list \<Rightarrow> bus \<Rightarrow> (int option \<times> bus) option" where
  "verify_backtrack delay [] b = Some (None, b)"
| "verify_backtrack delay (verification_arbitration_id # remaining) b =
     (let b1 = emit (Transmit verification_arbitration_id) b in
      case now b1 of
        [] \<Rightarrow> None
      | t # later \<Rightarrow>
          (case await_verification (t + delay + VERIFICATION_EXTRA_DELAY) later b1 of
             None \<Rightarrow> None
           | Some (verified, b2) \<Rightarrow>
               if verified then Some (Some verification_arbitration_id, b2)
               else verify_backtrack delay remaining b2))"

text \<open>Lines 184--237: what a valid response does; the result is the new
  \<^verbatim>\<open>send_arbitration_id\<close> and the new \<^verbatim>\<open>found_arbitration_ids\<close>.\<close>

definition on_valid_response ::
  "bool \<Rightarrow> rat \<Rightarrow> int \<Rightarrow> can_msg \<Rightarrow> (int \<times> int) list \<Rightarrow> bus
     \<Rightarrow> (int \<times> (int \<times> int) list \<times> bus) option" where
  "on_valid_response verify delay send_arbitration_id msg found_arbitration_ids b =
     (if verify then
        (let b1 = emit (Set_filter (arbitration_id msg)) b;
             verify_id_range =
               range_down send_arbitration_id (send_arbitration_id - VERIFICATION_BACKTRACK)
         in case verify_backtrack delay verify_id_range b1 of
              None \<Rightarrow> None
            | Some (verified, b2) \<Rightarrow>
                (let b3 = emit Clear_filters b2 in
                 case verified of
                   None \<Rightarrow> Some (send_arbitration_id, found_arbitration_ids, b3)
                 | Some verification_arbitration_id \<Rightarrow>
                     Some (verification_arbitration_id,
                           found_arbitration_ids
                             @ [(verification_arbitration_id, arbitration_id msg)],
                           b3)))
      else Some (send_arbitration_id,
                 found_arbitration_ids @ [(send_arbitration_id, arbitration_id msg)], b))"

text \<open>Lines 175--237: the loop that listens until \<^verbatim>\<open>end_time\<close>.\<close>

function listen ::
  "int list \<Rightarrow> bool \<Rightarrow> rat \<Rightarrow> rat \<Rightarrow> int \<Rightarrow> (int \<times> int) list \<Rightarrow> bus
     \<Rightarrow> (int \<times> (int \<times> int) list \<times> bus) option" where
  "listen blacklist verify delay end_time send_arbitration_id found_arbitration_ids b =
     (case now b of
        [] \<Rightarrow> None
      | t # later \<Rightarrow>
          if t < end_time then
            (case recv (b\<lparr>now := later\<rparr>) of
               (None, b1) \<Rightarrow>
                 listen blacklist verify delay end_time send_arbitration_id found_arbitration_ids b1
             | (Some msg, b1) \<Rightarrow>
                 if arbitration_id msg \<in> set blacklist then
                   listen blacklist verify delay end_time send_arbitration_id
                     found_arbitration_ids b1
                 else if is_valid_response msg then
                   (case on_valid_response verify delay send_arbitration_id msg
                           found_arbitration_ids b1 of
                      None \<Rightarrow> None
                    | Some (send_arbitration_id', found', b2) \<Rightarrow>
                        listen blacklist verify delay end_time send_arbitration_id' found' b2)
                 else
                   listen blacklist verify delay end_time send_arbitration_id
                     found_arbitration_ids b1)
          else Some (send_arbitration_id, found_arbitration_ids, b\<lparr>now := later\<rparr>))"
  by pat_completeness auto
termination
proof -
  have aw: "length (now b') \<le> length ts"
    if "await_verification e ts b = Some (v, b')" for e ts b v b'
    using that
  proof (induction ts arbitrary: b)
    case Nil
    then show ?case by simp
  next
    case (Cons t ts)
    then show ?case
      by (fastforce simp: recv_def split: if_splits prod.splits option.splits list.splits)
  qed
  have vb: "length (now b') \<le> length (now b)"
    if "verify_backtrack d ids b = Some (r, b')" for d ids b r b'
    using that
  proof (induction ids arbitrary: b)
    case Nil
    then show ?case by simp
  next
    case (Cons v remaining)
    then show ?case
      by (fastforce simp: emit_def Let_def split: list.splits option.splits if_splits dest: aw)
  qed
  have ov: "length (now b') \<le> length (now b)"
    if "on_valid_response vf d sid m f b = Some (sid', f', b')" for vf d sid m f b sid' f' b'
    using that
    by (auto simp: on_valid_response_def Let_def emit_def split: if_splits option.splits dest!: vb)
  show ?thesis
    by (relation "measure (\<lambda>(blacklist, verify, delay, end_time, send_id, found, b). length (now b))")
       (auto simp: recv_def split: list.splits dest!: ov)
qed

declare listen.simps [simp del]

text \<open>Lines 166--237: the loop over the arbitration ids to probe.\<close>

function scan ::
  "int list \<Rightarrow> bool \<Rightarrow> rat \<Rightarrow> int \<Rightarrow> int \<Rightarrow> (int \<times> int) list \<Rightarrow> bus
     \<Rightarrow> ((int \<times> int) list \<times> bus) option" where
  "scan blacklist verify delay max_id send_arbitration_id found_arbitration_ids b =
     (if send_arbitration_id < max_id then
        (case now b of
           [] \<Rightarrow> None
         | t # later \<Rightarrow>
             (case listen blacklist verify delay (t + delay) (send_arbitration_id + 1)
                     found_arbitration_ids
                     (emit (Transmit (send_arbitration_id + 1)) b\<lparr>now := later\<rparr>) of
                None \<Rightarrow> None
              | Some (send_arbitration_id', found', b') \<Rightarrow>
                  scan blacklist verify delay max_id send_arbitration_id' found' b'))
      else Some (found_arbitration_ids, b))"
  by pat_completeness auto
termination
proof -
  have aw: "length (now b') \<le> length ts"
    if "await_verification e ts b = Some (v, b')" for e ts b v b'
    using that
  proof (induction ts arbitrary: b)
    case Nil
    then show ?case by simp
  next
    case (Cons t ts)
    then show ?case
      by (fastforce simp: recv_def split: if_splits prod.splits option.splits list.splits)
  qed
  have vb: "length (now b') \<le> length (now b)"
    if "verify_backtrack d ids b = Some (r, b')" for d ids b r b'
    using that
  proof (induction ids arbitrary: b)
    case Nil
    then show ?case by simp
  next
    case (Cons v remaining)
    then show ?case
      by (fastforce simp: emit_def Let_def split: list.splits option.splits if_splits dest: aw)
  qed
  have ov: "length (now b') \<le> length (now b)"
    if "on_valid_response vf d sid m f b = Some (sid', f', b')" for vf d sid m f b sid' f' b'
    using that
    by (auto simp: on_valid_response_def Let_def emit_def split: if_splits option.splits dest!: vb)
  have ls: "length (now b') \<le> length (now b)"
    if "listen bl vf d e sid f b = Some (sid', f', b')" for bl vf d e sid f b sid' f' b'
    using that
  proof (induction bl vf d e sid f b rule: listen.induct)
    case (1 bl vf d e sid f b)
    from "1.prems" obtain t later where nb: "now b = t # later"
      by (subst (asm) listen.simps) (auto split: list.splits)
    show ?case
    proof (cases "t < e")
      case False
      with "1.prems" nb show ?thesis
        by (subst (asm) listen.simps) auto
    next
      case True
      obtain m b1 where rc: "(m, b1) = recv (b\<lparr>now := later\<rparr>)"
        by (metis surj_pair)
      then have l1: "length (now b1) < length (now b)"
        using nb by (auto simp: recv_def split: list.splits)
      note IH = "1.IH" [OF nb True rc]
      have "length (now b') \<le> length (now b1)"
      proof (cases m)
        case None
        with "1.prems" nb True rc [symmetric] have "listen bl vf d e sid f b1 = Some (sid', f', b')"
          by (subst (asm) listen.simps) simp
        with IH(1) None show ?thesis by simp
      next
        case (Some msg)
        show ?thesis
        proof (cases "arbitration_id msg \<notin> set bl \<and> is_valid_response msg")
          case False
          with "1.prems" nb True rc [symmetric] Some
          have "listen bl vf d e sid f b1 = Some (sid', f', b')"
            by (subst (asm) listen.simps) (auto split: if_splits)
          with IH(2,4) Some False show ?thesis by blast
        next
          case valid: True
          with "1.prems" nb True rc [symmetric] Some
          obtain sid2 f2 b2 where
            o: "on_valid_response vf d sid msg f b1 = Some (sid2, f2, b2)" and
            l: "listen bl vf d e sid2 f2 b2 = Some (sid', f', b')"
            by (subst (asm) listen.simps) (auto split: option.splits)
          from IH(3) [OF Some _ _ o refl refl] valid l
          have "length (now b') \<le> length (now b2)" by simp
          with ov [OF o] show ?thesis by simp
        qed
      qed
      with l1 show ?thesis by simp
    qed
  qed
  show ?thesis
    by (relation "measure (\<lambda>(blacklist, verify, delay, max_id, send_id, found, b). length (now b))")
       (auto simp: emit_def dest!: ls)
qed


declare scan.simps [simp del]

text \<open>
  The constants of \<^verbatim>\<open>lib/constants.py\<close> and the helper \<^verbatim>\<open>auto_blacklist\<close> are not
  part of the given sources: the constants are the parameter \<open>consts\<close>, and
  \<open>auto_blacklist_arb_ids\<close> is what the helper returns when it is called.
\<close>

record arbitration_constants =
  ARBITRATION_ID_MIN :: int
  ARBITRATION_ID_MAX :: int
  ARBITRATION_ID_MAX_EXTENDED :: int

definition uds_discovery ::
  "arbitration_constants \<Rightarrow> int list \<Rightarrow> int option \<Rightarrow> int option \<Rightarrow> int list option
     \<Rightarrow> rat option \<Rightarrow> rat \<Rightarrow> bool \<Rightarrow> bus
     \<Rightarrow> ((py_error + (int \<times> int) list) \<times> bus) option" where
  "uds_discovery consts auto_blacklist_arb_ids min_id max_id blacklist_args
       auto_blacklist_duration delay verify b =
     (let min_id = (case min_id of None \<Rightarrow> ARBITRATION_ID_MIN consts | Some v \<Rightarrow> v);
          max_id =
            (case max_id of
               None \<Rightarrow>
                 if min_id \<le> ARBITRATION_ID_MAX consts then ARBITRATION_ID_MAX consts
                 else ARBITRATION_ID_MAX_EXTENDED consts
             | Some v \<Rightarrow> v);
          auto_blacklist_duration =
            (case auto_blacklist_duration of None \<Rightarrow> 0 | Some d \<Rightarrow> d);
          blacklist_args = (case blacklist_args of None \<Rightarrow> [] | Some l \<Rightarrow> l)
      in if max_id < min_id then Some (Inl ValueError, b)
         else if auto_blacklist_duration < 0 then Some (Inl ValueError, b)
         else
           (let b1 = emit Open_bus b;
                blacklist = blacklist_args;
                (blacklist, b2) =
                  (if auto_blacklist_duration > 0
                   then (blacklist @ auto_blacklist_arb_ids,
                         emit (Auto_blacklist auto_blacklist_duration) b1)
                   else (blacklist, b1))
            in case scan blacklist verify delay max_id (min_id - 1) [] b2 of
                 None \<Rightarrow> None
               | Some (found_arbitration_ids, b3) \<Rightarrow> Some (Inr found_arbitration_ids, b3)))"




section \<open>Verified properties\<close>

subsection \<open>Helper facts on bit masks\<close>

lemma and_7F_eq_mod: "(x::int) AND 0x7F = x mod 128"
proof -
  have "x AND mask 7 = take_bit 7 x"
    by (simp add: take_bit_eq_mask)
  then show ?thesis
    by (simp add: take_bit_eq_mod mask_eq_exp_minus_1)
qed

lemma mask_7F_ignores_bit_80: "(0x7F::int) AND (s OR 0x80) = 0x7F AND s"
proof -
  have "(0x7F::int) AND (s OR 0x80) = (0x7F AND s) OR (0x7F AND 0x80)"
    by (simp add: bit.conj_disj_distrib)
  also have "(0x7F::int) AND 0x80 = 0"
    by simp
  finally show ?thesis
    by simp
qed

lemma session_constants:
  "DEFAULT_SESSION = 1" "PROGRAMMING_SESSION = 2" "EXTENDED_DIAGNOSTIC_SESSION = 3"
  "SAFETY_SYSTEM_DIAGNOSTIC_SESSION = 4"
  "VEHICLE_MANUFACTURER_SESSION_MIN = 0x40" "VEHICLE_MANUFACTURER_SESSION_MAX = 0x5F"
  "SYSTEM_SUPPLIER_SESSION_MIN = 0x60" "SYSTEM_SUPPLIER_SESSION_MAX = 0x7E"
  by (simp_all add: DEFAULT_SESSION_def PROGRAMMING_SESSION_def
      EXTENDED_DIAGNOSTIC_SESSION_def SAFETY_SYSTEM_DIAGNOSTIC_SESSION_def
      VEHICLE_MANUFACTURER_SESSION_MIN_def VEHICLE_MANUFACTURER_SESSION_MAX_def
      SYSTEM_SUPPLIER_SESSION_MIN_def SYSTEM_SUPPLIER_SESSION_MAX_def)

lemma succ_low7:
  assumes "(L::int) mod 128 \<le> 0x41"
  shows "(L + 1) mod 128 = L mod 128 + 1"
proof -
  have "(L + 1) mod 128 = (L mod 128 + 1) mod 128"
    by (simp add: mod_add_left_eq)
  also have "\<dots> = L mod 128 + 1"
    using assms by (intro mod_pos_pos_trivial) simp_all
  finally show ?thesis .
qed

lemma nrc_constants:
  "NR_SI = 0x7F" "ROUTINE_CONTROL = 0x31" "REQUEST_OUT_OF_RANGE = 0x31"
  "SUB_FUNCTION_NOT_SUPPORTED = 0x12" "SECURITY_ACCESS_DENIED = 0x33"
  "REQUEST_CORRECTLY_RECEIVED_RESPONSE_PENDING = 0x78"
  by (simp_all add: NR_SI_def ROUTINE_CONTROL_def REQUEST_OUT_OF_RANGE_def
      SUB_FUNCTION_NOT_SUPPORTED_def SECURITY_ACCESS_DENIED_def
      REQUEST_CORRECTLY_RECEIVED_RESPONSE_PENDING_def)

subsection \<open>The protocol client\<close>

text \<open>
  C1 (pending responses are never returned), evaluated on the run of the pending-response
  scenario: the transport delivers the three-byte negative response
  \<open>[0x7F, 0x10, 0x78]\<close> and then the positive response. The loop of
  \<^verbatim>\<open>receive_response\<close> only goes round again for messages of more than three bytes, so
  the three-byte pending response is what the client returns.
\<close>

theorem receive_response_returns_short_pending:
  "receive_response 1
     \<lparr>clock = [0, 0, 1 / 20],
      indications = [Some [0x7F, 0x10, 0x78], Some [0x50, 0x03, 0, 0, 0, 0]],
      requests = []\<rparr>
   = Some (Some [0x7F, 0x10, 0x78],
           \<lparr>clock = [1 / 20], indications = [Some [0x50, 0x03, 0, 0, 0, 0]], requests = []\<rparr>)"
  by (simp add: receive_response_def indication_def keeps_waiting_def)

text \<open>What the loop does absorb: a pending response of more than three bytes is never the
  result.\<close>

lemma receive_loop_absorbs_long_pending:
  "receive_loop start w ts tp = Some (Some r, tp')
     \<Longrightarrow> \<not> (length r > 3 \<and> r ! 0 = 0x7F \<and> r ! 2 = 0x78)"
proof (induction ts arbitrary: tp)
  case Nil
  then show ?case by simp
next
  case (Cons t ts)
  then show ?case
    by (auto simp: keeps_waiting_def nrc_constants split: if_splits prod.splits)
qed

text \<open>
  C2 as stated fails: for the service identifier \<open>0xFF\<close> the result is \<open>0x13F\<close>,
  which is not reduced modulo 256.
\<close>

theorem get_service_response_id_counterexample:
  "get_service_response_id 0xFF \<noteq> (0xFF + 0x40) mod 256"
  by (simp add: get_service_response_id_def)

text \<open>
  C2, amended: for every service identifier \<open>sid\<close> in \<open>[0x00, 0xFF]\<close>,
  \<^verbatim>\<open>get_service_response_id(sid)\<close> is \<open>sid + 0x40\<close>, and this equals
  \<open>(sid + 0x40) mod 256\<close> exactly when \<open>sid \<le> 0xBF\<close>.
\<close>

theorem get_service_response_id_value:
  "0 \<le> sid \<Longrightarrow> sid \<le> 0xFF \<Longrightarrow>
     get_service_response_id sid = sid + 0x40
     \<and> (get_service_response_id sid = (sid + 0x40) mod 256 \<longleftrightarrow> sid \<le> 0xBF)"
proof -
  assume bounds: "0 \<le> sid" "sid \<le> 0xFF"
  have small: "(sid + 0x40) mod 256 = sid + 0x40" if "sid \<le> 0xBF"
    using bounds that by (intro mod_pos_pos_trivial) simp_all
  have large: "(sid + 0x40) mod 256 \<noteq> sid + 0x40" if "\<not> sid \<le> 0xBF"
  proof -
    have "(sid + 0x40) mod 256 < 256"
      by simp
    with that show ?thesis
      by linarith
  qed
  from small large show ?thesis
    unfolding get_service_response_id_def by metis
qed

theorem get_service_response_id_value_witness:
  "(0::int) \<le> 0x10 \<and> (0x10::int) \<le> 0xFF \<and> get_service_response_id 0x10 = 0x50
   \<and> get_service_response_id 0x10 = (0x10 + 0x40) mod 256"
  using get_service_response_id_value [of "0x10"] by simp

text \<open>
  C10: called with an empty list of data identifiers, \<^verbatim>\<open>read_data_by_identifier\<close>
  returns the empty list (not \<^verbatim>\<open>None\<close>) and leaves the transport as it was: no request
  is sent, no message and no clock reading is consumed.
\<close>

theorem read_data_by_identifier_empty:
  "read_data_by_identifier p3_client [] tp = Some (Some [], tp)"
  by (simp add: read_data_by_identifier_def)

subsection \<open>Session types and security levels\<close>

text \<open>
  C7: \<^verbatim>\<open>is_valid_session(s)\<close> holds exactly when \<open>s AND 0x7F\<close> is one of 1, 2, 3, 4
  or lies in \<open>[0x40, 0x5F]\<close> or in \<open>[0x60, 0x7E]\<close>; hence the suppress-positive-response
  bit \<open>0x80\<close> does not change the answer. This holds for every integer, bytes included.
\<close>

theorem is_valid_session_ranges:
  "(is_valid_session s \<longleftrightarrow>
      (s AND 0x7F) \<in> {0x01, 0x02, 0x03, 0x04} \<or> (s AND 0x7F) \<in> {0x40..0x5F}
      \<or> (s AND 0x7F) \<in> {0x60..0x7E})
   \<and> is_valid_session s = is_valid_session (s OR 0x80)"
proof -
  define m where "m = 0x7F AND s"
  have a: "s AND 0x7F = m"
    by (simp add: m_def and.commute)
  have b: "0x7F AND (s OR 0x80) = m"
    by (simp only: mask_7F_ignores_bit_80 m_def)
  have "is_valid_session s \<longleftrightarrow>
          m \<in> {0x01, 0x02, 0x03, 0x04} \<or> m \<in> {0x40..0x5F} \<or> m \<in> {0x60..0x7E}"
    unfolding is_valid_session_def Let_def m_def [symmetric] session_constants by auto
  moreover have "is_valid_session s = is_valid_session (s OR 0x80)"
    unfolding is_valid_session_def Let_def b m_def [symmetric] ..
  ultimately show ?thesis
    unfolding a by blast
qed

text \<open>
  C9: for every level \<open>L\<close> accepted by \<^verbatim>\<open>is_valid_request_seed_level\<close>, the level
  \<open>L + 1\<close> is accepted by \<^verbatim>\<open>is_valid_send_key_level\<close>, and
  \<^verbatim>\<open>get_send_key_for_request_seed(L)\<close> is \<open>L + 1\<close>.
\<close>

theorem send_key_level_follows_request_seed:
  assumes "is_valid_request_seed_level L"
  shows "is_valid_send_key_level (L + 1) \<and> get_send_key_for_request_seed L = L + 1"
proof -
  define v where "v = L mod 128"
  from assms have v: "1 \<le> v" "v \<le> 0x41" "v mod 2 = 1"
    by (simp_all add: is_valid_request_seed_level_def Let_def and_7F_eq_mod v_def
        REQUEST_SEED_MIN_def REQUEST_SEED_MAX_def)
  have w: "(L + 1) mod 128 = v + 1"
    using v(2) unfolding v_def by (rule succ_low7)
  have "(v + 1) mod 2 = 0"
    using v(3) by presburger
  with v w show ?thesis
    by (simp add: is_valid_send_key_level_def Let_def and_7F_eq_mod
        get_send_key_for_request_seed_def SEND_KEY_MIN_def SEND_KEY_MAX_def)
qed

theorem send_key_level_follows_request_seed_witness:
  "is_valid_request_seed_level 0x41 \<and> is_valid_send_key_level (0x41 + 1)
   \<and> get_send_key_for_request_seed 0x41 = 0x42"
proof -
  have h: "is_valid_request_seed_level 0x41"
    by (simp add: is_valid_request_seed_level_def REQUEST_SEED_MIN_def REQUEST_SEED_MAX_def)
  from send_key_level_follows_request_seed [OF h] h show ?thesis
    by simp
qed

subsection \<open>Scan ranges\<close>

text \<open>
  C3 (the safety preset of \<^verbatim>\<open>make_did_range\<close>), evaluated at the input of the claim:
  safety flag set, OEM and supplier flags clear, no bounds. The final \<^verbatim>\<open>elif\<close> tests
  the OEM and supplier flags only, so the default range \<open>[0x0000, 0xFFFF]\<close> replaces the
  preset; the result is not the union \<open>[0xFA00, 0xFA0F] \<union> [0xFA19, 0xFAFF]\<close>.
\<close>

theorem make_did_range_safety_only:
  "make_did_range False False True None None = Inr (range_up 0x0 (0xffff + 1))
   \<and> make_did_range False False True None None \<noteq> Inr ([0xFA00..0xFA0F] @ [0xFA19..0xFAFF])"
proof -
  have run: "make_did_range False False True None None = Inr (range_up 0x0 (0xffff + 1))"
    by (simp add: make_did_range_def)
  have inside: "(0::int) \<in> set (range_up 0x0 (0xffff + 1))"
    unfolding range_up_def set_upto by simp
  have outside: "(0::int) \<notin> set ([0xFA00..0xFA0F] @ [0xFA19..0xFAFF])"
    unfolding set_append set_upto by simp
  have "range_up 0x0 (0xffff + 1) \<noteq> [0xFA00..0xFA0F] @ [0xFA19..0xFAFF]"
  proof
    assume "range_up 0x0 (0xffff + 1) = [0xFA00..0xFA0F] @ [0xFA19..0xFAFF]"
    with inside have "(0::int) \<in> set ([0xFA00..0xFA0F] @ [0xFA19..0xFAFF])"
      by (simp only:)
    with outside show False
      by contradiction
  qed
  then have "Inr (range_up 0x0 (0xffff + 1)) \<noteq> (Inr ([0xFA00..0xFA0F] @ [0xFA19..0xFAFF]) :: py_error + int list)"
    by (simp only: sum.inject not_False_eq_True)
  with run show ?thesis
    by (simp only: simp_thms)
qed

theorem make_did_range_safety_only_witness:
  "make_did_range False False True None None = Inr (range_up 0x0000 0x10000)"
  using make_did_range_safety_only by simp

subsection \<open>The routine-control scan\<close>

text \<open>
  C6 as stated fails for a positive reply shorter than four bytes: the scanner reads bytes 2
  and 3 of a positive reply, so the one-byte reply \<open>[0x71]\<close> (positive, since its first
  byte is not \<open>0x7F\<close>) raises \<^verbatim>\<open>IndexError\<close> and nothing is recorded.
\<close>

theorem routine_scan_short_positive_counterexample:
  "is_positive_response (Some [0x71])
   \<and> scan_routine_control False False (Some 0x0203) (Some 0x0203) [Some [0x71]] = Inl IndexError"
  by (simp add: is_positive_response_def scan_routine_control_def routine_id_range_def
      range_up_def routine_control_def record_routine_def nrc_constants)

text \<open>
  One pass of the loop of the scan: the reply it classifies is that of the first call of
  \<^verbatim>\<open>routine_control\<close>, or that of the second call when the first timed out. What the
  scan returns is what it had accumulated, followed by what the remaining passes add.
\<close>

lemma record_routine_accumulates:
  "record_routine rid response routine_map =
     (case record_routine rid response [] of
        Inl e \<Rightarrow> Inl e
      | Inr entry \<Rightarrow> Inr (routine_map @ entry))"
  by (simp add: record_routine_def split: option.splits)

lemma scan_routines_probe:
  "\<exists>response replies'. \<forall>m.
     scan_routines (rid # rest) replies m =
       (case record_routine rid response m of
          Inl e \<Rightarrow> Inl e
        | Inr m' \<Rightarrow> scan_routines rest replies' m')"
proof (cases "routine_control replies")
  case first: (Pair r1 rs1)
  show ?thesis
  proof (cases r1)
    case (Some r)
    with first show ?thesis
      by (intro exI [of _ "Some r"] exI [of _ rs1]) simp
  next
    case None
    obtain r2 rs2 where second: "routine_control rs1 = (r2, rs2)"
      by (metis surj_pair)
    with first None show ?thesis
      by (intro exI [of _ r2] exI [of _ rs2]) simp
  qed
qed

lemma scan_routines_accumulates:
  "scan_routines rids replies routine_map =
     (case scan_routines rids replies [] of
        Inl e \<Rightarrow> Inl e
      | Inr later \<Rightarrow> Inr (routine_map @ later))"
proof (induction rids arbitrary: replies routine_map)
  case Nil
  show ?case
    by simp
next
  case (Cons rid rest)
  from scan_routines_probe [of rid rest replies] obtain response replies' where
    step: "\<And>m. scan_routines (rid # rest) replies m =
       (case record_routine rid response m of
          Inl e \<Rightarrow> Inl e
        | Inr m' \<Rightarrow> scan_routines rest replies' m')"
    by blast
  show ?case
  proof (cases "record_routine rid response []")
    case (Inl e)
    then have "record_routine rid response routine_map = Inl e"
      by (subst record_routine_accumulates) simp
    with Inl show ?thesis
      by (simp only: step sum.case)
  next
    case (Inr entry)
    then have full: "record_routine rid response routine_map = Inr (routine_map @ entry)"
      by (subst record_routine_accumulates) simp
    have "scan_routines rest replies' (routine_map @ entry) =
        (case scan_routines rest replies' [] of
           Inl e \<Rightarrow> Inl e
         | Inr later \<Rightarrow> Inr (routine_map @ entry @ later))"
      by (subst Cons.IH) (simp split: sum.splits)
    moreover have "scan_routines rest replies' entry =
        (case scan_routines rest replies' [] of
           Inl e \<Rightarrow> Inl e
         | Inr later \<Rightarrow> Inr (entry @ later))"
      by (rule Cons.IH)
    ultimately show ?thesis
      by (simp only: step Inr full sum.case) (simp split: sum.splits)
  qed
qed


lemma scan_routines_reply:
  assumes "retry = [] \<or> retry = [None]"
  shows "scan_routines (rid # rest) (retry @ Some r # replies) m =
      (case record_routine rid (Some r) m of
         Inl e \<Rightarrow> Inl e
       | Inr m' \<Rightarrow> scan_routines rest replies m')"
proof -
  from assms consider "retry = []" | "retry = [None]"
    by blast
  then show ?thesis
    by cases (simp_all add: routine_control_def)
qed

lemma scan_routines_records:
  assumes "retry = [] \<or> retry = [None]"
    and "record_routine rid (Some r) [] = Inr entry"
  shows "scan_routines (rid # rest) (retry @ Some r # replies) routine_map =
      (case scan_routines rest replies [] of
         Inl e \<Rightarrow> Inl e
       | Inr later \<Rightarrow> Inr (routine_map @ entry @ later))"
proof -
  from assms(2) have "record_routine rid (Some r) routine_map = Inr (routine_map @ entry)"
    by (subst record_routine_accumulates) simp
  then have "scan_routines (rid # rest) (retry @ Some r # replies) routine_map
      = scan_routines rest replies (routine_map @ entry)"
    by (simp only: scan_routines_reply [OF assms(1)] sum.case)
  also have "\<dots> = (case scan_routines rest replies [] of
         Inl e \<Rightarrow> Inl e
       | Inr later \<Rightarrow> Inr (routine_map @ entry @ later))"
    by (subst scan_routines_accumulates) (simp split: sum.splits)
  finally show ?thesis .
qed

text \<open>
  C6, amended: for every routine id \<open>rid\<close> probed by the scan, whether its reply is
  returned by the first call of \<^verbatim>\<open>routine_control\<close> (\<open>retry = []\<close>) or by the second
  call, made after a timeout of the first (\<open>retry = [None]\<close>): a negative reply echoing
  service \<open>0x31\<close> with NRC \<open>0x12\<close> puts \<open>(rid, SUPPORTED_NO_SECURITY)\<close> into the map that
  the scan returns, after the entries accumulated for the earlier ids and before those of the
  later ids; one with NRC \<open>0x33\<close> puts \<open>(rid, SUPPORTED_SECURITY_ACCESS_DENIED)\<close> there; one
  with NRC \<open>0x31\<close> puts nothing there; and a positive reply of at least four bytes puts an
  entry with the marker \<open>?? Success ?? how\<close> there, whose id is read from bytes 2 and 3 of
  the reply. When both calls time out nothing is recorded for \<open>rid\<close>. In each case the scan
  goes on with the next routine id and the replies that follow, and
  \<^verbatim>\<open>scan_routine_control\<close> returns the map of this scan over its range of routine ids,
  started from the empty map.
\<close>

theorem routine_scan_classification:
  assumes "retry = [] \<or> retry = [None]"
  shows "scan_routines (rid # rest)
           (retry @ Some (0x7F # 0x31 # 0x12 # extra) # replies) routine_map
         = (case scan_routines rest replies [] of
              Inl e \<Rightarrow> Inl e
            | Inr later \<Rightarrow> Inr (routine_map @ (rid, ''SUPPORTED_NO_SECURITY'') # later))
       \<and> scan_routines (rid # rest)
           (retry @ Some (0x7F # 0x31 # 0x33 # extra) # replies) routine_map
         = (case scan_routines rest replies [] of
              Inl e \<Rightarrow> Inl e
            | Inr later \<Rightarrow>
                Inr (routine_map @ (rid, ''SUPPORTED_SECURITY_ACCESS_DENIED'') # later))
       \<and> scan_routines (rid # rest)
           (retry @ Some (0x7F # 0x31 # 0x31 # extra) # replies) routine_map
         = (case scan_routines rest replies [] of
              Inl e \<Rightarrow> Inl e
            | Inr later \<Rightarrow> Inr (routine_map @ later))
       \<and> (s \<noteq> 0x7F \<longrightarrow>
            scan_routines (rid # rest)
              (retry @ Some (s # sf # hi # lo # extra) # replies) routine_map
            = (case scan_routines rest replies [] of
                 Inl e \<Rightarrow> Inl e
               | Inr later \<Rightarrow>
                   Inr (routine_map @ (push_bit 8 hi OR lo, ''?? Success ?? how'') # later)))
       \<and> scan_routines (rid # rest) (None # None # replies) routine_map
         = (case scan_routines rest replies [] of
              Inl e \<Rightarrow> Inl e
            | Inr later \<Rightarrow> Inr (routine_map @ later))
       \<and> scan_routine_control is_oem is_supplier min_id max_id all_replies
         = (case routine_id_range is_oem is_supplier min_id max_id of
              Inl e \<Rightarrow> Inl e
            | Inr routine_ids \<Rightarrow> scan_routines routine_ids all_replies [])"
proof (intro conjI impI)
  have "record_routine rid (Some (0x7F # 0x31 # 0x12 # extra)) []
      = Inr [(rid, ''SUPPORTED_NO_SECURITY'')]"
    by (simp add: record_routine_def is_positive_response_def nrc_constants)
  from scan_routines_records [OF assms this, of rest replies routine_map]
  show "scan_routines (rid # rest)
           (retry @ Some (0x7F # 0x31 # 0x12 # extra) # replies) routine_map
         = (case scan_routines rest replies [] of
              Inl e \<Rightarrow> Inl e
            | Inr later \<Rightarrow> Inr (routine_map @ (rid, ''SUPPORTED_NO_SECURITY'') # later))"
    by (simp only: append_Cons append_Nil)
next
  have "record_routine rid (Some (0x7F # 0x31 # 0x33 # extra)) []
      = Inr [(rid, ''SUPPORTED_SECURITY_ACCESS_DENIED'')]"
    by (simp add: record_routine_def is_positive_response_def nrc_constants)
  from scan_routines_records [OF assms this, of rest replies routine_map]
  show "scan_routines (rid # rest)
           (retry @ Some (0x7F # 0x31 # 0x33 # extra) # replies) routine_map
         = (case scan_routines rest replies [] of
              Inl e \<Rightarrow> Inl e
            | Inr later \<Rightarrow>
                Inr (routine_map @ (rid, ''SUPPORTED_SECURITY_ACCESS_DENIED'') # later))"
    by (simp only: append_Cons append_Nil)
next
  have "record_routine rid (Some (0x7F # 0x31 # 0x31 # extra)) [] = Inr []"
    by (simp add: record_routine_def is_positive_response_def nrc_constants)
  from scan_routines_records [OF assms this, of rest replies routine_map]
  show "scan_routines (rid # rest)
           (retry @ Some (0x7F # 0x31 # 0x31 # extra) # replies) routine_map
         = (case scan_routines rest replies [] of
              Inl e \<Rightarrow> Inl e
            | Inr later \<Rightarrow> Inr (routine_map @ later))"
    by (simp only: append_Cons append_Nil)
next
  assume "s \<noteq> 0x7F"
  then have "record_routine rid (Some (s # sf # hi # lo # extra)) []
      = Inr [(push_bit 8 hi OR lo, ''?? Success ?? how'')]"
    by (simp add: record_routine_def is_positive_response_def nrc_constants)
  from scan_routines_records [OF assms this, of rest replies routine_map]
  show "scan_routines (rid # rest)
              (retry @ Some (s # sf # hi # lo # extra) # replies) routine_map
            = (case scan_routines rest replies [] of
                 Inl e \<Rightarrow> Inl e
               | Inr later \<Rightarrow>
                   Inr (routine_map @ (push_bit 8 hi OR lo, ''?? Success ?? how'') # later))"
    by (simp only: append_Cons append_Nil)
next
  have "scan_routines (rid # rest) (None # None # replies) routine_map
      = scan_routines rest replies routine_map"
    by (simp add: routine_control_def record_routine_def is_positive_response_def)
  also have "\<dots> = (case scan_routines rest replies [] of
         Inl e \<Rightarrow> Inl e
       | Inr later \<Rightarrow> Inr (routine_map @ later))"
    by (rule scan_routines_accumulates)
  finally show "scan_routines (rid # rest) (None # None # replies) routine_map
         = (case scan_routines rest replies [] of
              Inl e \<Rightarrow> Inl e
            | Inr later \<Rightarrow> Inr (routine_map @ later))" .
next
  show "scan_routine_control is_oem is_supplier min_id max_id all_replies
         = (case routine_id_range is_oem is_supplier min_id max_id of
              Inl e \<Rightarrow> Inl e
            | Inr routine_ids \<Rightarrow> scan_routines routine_ids all_replies [])"
    by (simp add: scan_routine_control_def)
qed


theorem routine_scan_classification_witness:
  "([None] = [] \<or> [None] = [None :: message option])
   \<and> (0x71::int) \<noteq> 0x7F
   \<and> scan_routines [0x0203, 0x0204, 0x0205, 0x0206]
        [None, Some [0x7F, 0x31, 0x12], Some [0x7F, 0x31, 0x33],
         None, Some [0x7F, 0x31, 0x31], None, Some [0x71, 0x00, 0x02, 0x06]] []
      = Inr [(0x0203, ''SUPPORTED_NO_SECURITY''), (0x0204, ''SUPPORTED_SECURITY_ACCESS_DENIED''),
             (0x0206, ''?? Success ?? how'')]
   \<and> scan_routine_control False False (Some 0x0203) (Some 0x0206)
        [None, Some [0x7F, 0x31, 0x12], Some [0x7F, 0x31, 0x33],
         None, Some [0x7F, 0x31, 0x31], None, Some [0x71, 0x00, 0x02, 0x06]]
      = Inr [(0x0203, ''SUPPORTED_NO_SECURITY''), (0x0204, ''SUPPORTED_SECURITY_ACCESS_DENIED''),
             (0x0206, ''?? Success ?? how'')]"
proof -
  have retried: "[None] = [] \<or> [None] = [None :: message option]"
    by simp
  have direct: "[] = [] \<or> [] = [None :: message option]"
    by simp
  have last: "scan_routines [] [] [] = Inr []"
    by simp
  note first_id = routine_scan_classification [OF retried,
      of "0x0203" "[0x0204, 0x0205, 0x0206]" "[]"
         "[Some [0x7F, 0x31, 0x33], None, Some [0x7F, 0x31, 0x31], None,
           Some [0x71, 0x00, 0x02, 0x06]]" "[]"]
  note second_id = routine_scan_classification [OF direct,
      of "0x0204" "[0x0205, 0x0206]" "[]"
         "[None, Some [0x7F, 0x31, 0x31], None, Some [0x71, 0x00, 0x02, 0x06]]" "[]"]
  note third_id = routine_scan_classification [OF retried,
      of "0x0205" "[0x0206]" "[]" "[None, Some [0x71, 0x00, 0x02, 0x06]]" "[]"]
  note fourth_id = routine_scan_classification [OF retried,
      of "0x0206" "[]" "[]" "[]" "[]" "0x71" "0x00" "0x02" "0x06"]
  note whole = routine_scan_classification [OF direct,
      of _ _ _ _ _ _ _ _ _ False False "Some 0x0203" "Some 0x0206"
         "[None, Some [0x7F, 0x31, 0x12], Some [0x7F, 0x31, 0x33],
           None, Some [0x7F, 0x31, 0x31], None, Some [0x71, 0x00, 0x02, 0x06]]"]
  have fourth: "scan_routines [0x0206] [None, Some [0x71, 0x00, 0x02, 0x06]] []
      = Inr [(0x0206, ''?? Success ?? how'')]"
    using fourth_id last by (simp add: push_bit_eq_mult)
  have third: "scan_routines [0x0205, 0x0206]
        [None, Some [0x7F, 0x31, 0x31], None, Some [0x71, 0x00, 0x02, 0x06]] []
      = Inr [(0x0206, ''?? Success ?? how'')]"
    using third_id fourth by simp
  have second: "scan_routines [0x0204, 0x0205, 0x0206]
        [Some [0x7F, 0x31, 0x33], None, Some [0x7F, 0x31, 0x31], None,
         Some [0x71, 0x00, 0x02, 0x06]] []
      = Inr [(0x0204, ''SUPPORTED_SECURITY_ACCESS_DENIED''), (0x0206, ''?? Success ?? how'')]"
    using second_id third by simp
  have first: "scan_routines [0x0203, 0x0204, 0x0205, 0x0206]
        [None, Some [0x7F, 0x31, 0x12], Some [0x7F, 0x31, 0x33],
         None, Some [0x7F, 0x31, 0x31], None, Some [0x71, 0x00, 0x02, 0x06]] []
      = Inr [(0x0203, ''SUPPORTED_NO_SECURITY''), (0x0204, ''SUPPORTED_SECURITY_ACCESS_DENIED''),
             (0x0206, ''?? Success ?? how'')]"
    using first_id second by simp
  have ids: "routine_id_range False False (Some 0x0203) (Some 0x0206)
      = Inr [0x0203, 0x0204, 0x0205, 0x0206]"
    by (simp add: routine_id_range_def range_up_def upto_rec1)
  from whole ids first show ?thesis
    by simp
qed

subsection \<open>Endpoint discovery\<close>

text \<open>Invariants of the two loops: what holds before a loop, and is kept by each of its
  steps, holds of its result.\<close>

lemma listen_invariant:
  assumes "listen bl vf d e sid f b = Some (sid', f', b')"
    and "P sid f b"
    and "\<And>sid f b t later. P sid f b \<Longrightarrow> now b = t # later \<Longrightarrow> P sid f (b\<lparr>now := later\<rparr>)"
    and "\<And>sid f b m b1. P sid f b \<Longrightarrow> recv b = (m, b1) \<Longrightarrow> P sid f b1"
    and "\<And>sid f b msg sid2 f2 b2.
        P sid f b \<Longrightarrow> arbitration_id msg \<notin> set bl \<Longrightarrow> is_valid_response msg
        \<Longrightarrow> on_valid_response vf d sid msg f b = Some (sid2, f2, b2) \<Longrightarrow> P sid2 f2 b2"
  shows "P sid' f' b'"
  using assms
proof (induction bl vf d e sid f b rule: listen.induct)
  case (1 bl vf d e sid f b)
  note run = "1.prems"(1) and init = "1.prems"(2) and tick = "1.prems"(3)
    and rcv = "1.prems"(4) and hit = "1.prems"(5)
  from run obtain t later where nb: "now b = t # later"
    by (subst (asm) listen.simps) (auto split: list.splits)
  have P1: "P sid f (b\<lparr>now := later\<rparr>)"
    using init nb by (rule tick)
  show ?case
  proof (cases "t < e")
    case False
    with run nb have "sid' = sid" "f' = f" "b' = b\<lparr>now := later\<rparr>"
      by (subst (asm) listen.simps, simp)+
    with P1 show ?thesis
      by simp
  next
    case True
    obtain m b1 where rc: "(m, b1) = recv (b\<lparr>now := later\<rparr>)"
      by (metis surj_pair)
    have P2: "P sid f b1"
      using P1 rc [symmetric] by (rule rcv)
    note IH = "1.IH" [OF nb True rc]
    show ?thesis
    proof (cases m)
      case None
      with run nb True rc [symmetric]
      have lst: "listen bl vf d e sid f b1 = Some (sid', f', b')"
        by (subst (asm) listen.simps) simp
      show ?thesis
        by (rule IH(1) [OF None lst P2 tick rcv hit])
    next
      case (Some msg)
      show ?thesis
      proof (cases "arbitration_id msg \<notin> set bl \<and> is_valid_response msg")
        case False
        with run nb True rc [symmetric] Some
        have lst: "listen bl vf d e sid f b1 = Some (sid', f', b')"
          by (subst (asm) listen.simps) (auto split: if_splits)
        show ?thesis
        proof (cases "arbitration_id msg \<in> set bl")
          case True
          show ?thesis
            by (rule IH(2) [OF Some True lst P2 tick rcv hit])
        next
          case unlisted: False
          with False have bad: "\<not> is_valid_response msg"
            by simp
          show ?thesis
            by (rule IH(4) [OF Some unlisted bad lst P2 tick rcv hit])
        qed
      next
        case valid: True
        with run nb True rc [symmetric] Some
        obtain sid2 f2 b2 where
          o: "on_valid_response vf d sid msg f b1 = Some (sid2, f2, b2)" and
          lst: "listen bl vf d e sid2 f2 b2 = Some (sid', f', b')"
          by (subst (asm) listen.simps) (auto split: option.splits)
        from valid have unlisted: "arbitration_id msg \<notin> set bl" and ok: "is_valid_response msg"
          by simp_all
        have P3: "P sid2 f2 b2"
          using P2 unlisted ok o by (rule hit)
        show ?thesis
          by (rule IH(3) [OF Some unlisted ok o refl refl lst P3 tick rcv hit])
      qed
    qed
  qed
qed

lemma scan_invariant:
  assumes "scan bl vf d mx sid f b = Some (f', b')"
    and "Q f b"
    and "\<And>sid f b t later sid2 f2 b2.
        Q f b \<Longrightarrow> now b = t # later \<Longrightarrow> sid < mx
        \<Longrightarrow> listen bl vf d (t + d) (sid + 1) f (emit (Transmit (sid + 1)) b\<lparr>now := later\<rparr>)
              = Some (sid2, f2, b2)
        \<Longrightarrow> Q f2 b2"
  shows "Q f' b'"
  using assms
proof (induction bl vf d mx sid f b rule: scan.induct)
  case (1 bl vf d mx sid f b)
  note run = "1.prems"(1) and init = "1.prems"(2) and step = "1.prems"(3)
  show ?case
  proof (cases "sid < mx")
    case False
    with run init show ?thesis
      by (subst (asm) scan.simps) simp
  next
    case True
    with run obtain t later sid2 f2 b2 where
      nb: "now b = t # later" and
      l: "listen bl vf d (t + d) (sid + 1) f (emit (Transmit (sid + 1)) b\<lparr>now := later\<rparr>)
            = Some (sid2, f2, b2)" and
      s: "scan bl vf d mx sid2 f2 b2 = Some (f', b')"
      by (subst (asm) scan.simps) (auto split: list.splits option.splits)
    have Q2: "Q f2 b2"
      using init nb True l by (rule step)
    show ?thesis
      by (rule "1.IH" [OF True nb l refl refl s Q2 step])
  qed
qed

text \<open>The scanner after its defaults and sanity checks.\<close>

lemma uds_discovery_unfold:
  assumes "lo = (case min_id of None \<Rightarrow> ARBITRATION_ID_MIN consts | Some v \<Rightarrow> v)"
    and "hi = (case max_id of
                 None \<Rightarrow> if lo \<le> ARBITRATION_ID_MAX consts then ARBITRATION_ID_MAX consts
                         else ARBITRATION_ID_MAX_EXTENDED consts
               | Some v \<Rightarrow> v)"
    and "dur = (case auto_blacklist_duration of None \<Rightarrow> 0 | Some d \<Rightarrow> d)"
    and "bl = (case blacklist_args of None \<Rightarrow> [] | Some l \<Rightarrow> l)"
  shows "uds_discovery consts auto_ids min_id max_id blacklist_args
           auto_blacklist_duration delay verify b =
         (if hi < lo \<or> dur < 0 then Some (Inl ValueError, b)
          else
            (case scan (if dur > 0 then bl @ auto_ids else bl) verify delay hi (lo - 1) []
                    (if dur > 0 then emit (Auto_blacklist dur) (emit Open_bus b)
                     else emit Open_bus b) of
               None \<Rightarrow> None
             | Some (found, b3) \<Rightarrow> Some (Inr found, b3)))"
  unfolding uds_discovery_def Let_def assms [symmetric]
  by simp

text \<open>
  C8: with \<open>lo\<close>, \<open>hi\<close> and \<open>dur\<close> the bounds and the duration after the defaults are
  applied, \<^verbatim>\<open>uds_discovery\<close> ends in an error exactly when \<open>hi < lo\<close> or \<open>dur < 0\<close>,
  and then the error is \<^verbatim>\<open>ValueError\<close> and the bus is as it was before the call: nothing
  was opened, transmitted or received, and no clock reading was taken.
\<close>

theorem uds_discovery_argument_error:
  assumes "lo = (case min_id of None \<Rightarrow> ARBITRATION_ID_MIN consts | Some v \<Rightarrow> v)"
    and "hi = (case max_id of
                 None \<Rightarrow> if lo \<le> ARBITRATION_ID_MAX consts then ARBITRATION_ID_MAX consts
                         else ARBITRATION_ID_MAX_EXTENDED consts
               | Some v \<Rightarrow> v)"
    and "dur = (case auto_blacklist_duration of None \<Rightarrow> 0 | Some d \<Rightarrow> d)"
  shows "((\<exists>e b'. uds_discovery consts auto_ids min_id max_id blacklist_args
                    auto_blacklist_duration delay verify b = Some (Inl e, b'))
          \<longleftrightarrow> hi < lo \<or> dur < 0)
       \<and> (hi < lo \<or> dur < 0 \<longrightarrow>
            uds_discovery consts auto_ids min_id max_id blacklist_args
              auto_blacklist_duration delay verify b = Some (Inl ValueError, b))"
  unfolding uds_discovery_unfold [OF assms refl]
  by (auto split: option.splits)

theorem uds_discovery_argument_error_witness:
  "(3::int) < 5
   \<and> uds_discovery
       \<lparr>ARBITRATION_ID_MIN = 0, ARBITRATION_ID_MAX = 0x7FF, ARBITRATION_ID_MAX_EXTENDED = 0x1FFFFFFF\<rparr>
       [] (Some 5) (Some 3) None None (1 / 100) True \<lparr>now = [0], rx = [], trace = []\<rparr>
     = Some (Inl ValueError, \<lparr>now = [0], rx = [], trace = []\<rparr>)
   \<and> uds_discovery
       \<lparr>ARBITRATION_ID_MIN = 0, ARBITRATION_ID_MAX = 0x7FF, ARBITRATION_ID_MAX_EXTENDED = 0x1FFFFFFF\<rparr>
       [] None None None (Some (- 1)) (1 / 100) True \<lparr>now = [0], rx = [], trace = []\<rparr>
     = Some (Inl ValueError, \<lparr>now = [0], rx = [], trace = []\<rparr>)"
proof -
  note rule = uds_discovery_argument_error [OF refl refl refl]
  have inverted: "(3::int) < 5"
    by simp
  have negative: "(- 1::rat) < 0"
    by simp
  from inverted
    rule [of _ "[]" "Some 5" "Some 3" None None "1 / 100" True
            "\<lparr>now = [0], rx = [], trace = []\<rparr>"]
    negative
    rule [of "\<lparr>ARBITRATION_ID_MIN = 0, ARBITRATION_ID_MAX = 0x7FF,
               ARBITRATION_ID_MAX_EXTENDED = 0x1FFFFFFF\<rparr>"
            "[]" None None None "Some (- 1)" "1 / 100" True
            "\<lparr>now = [0], rx = [], trace = []\<rparr>"]
  show ?thesis
    by simp
qed


text \<open>No response id that the scanner records is on its blacklist.\<close>

lemma on_valid_response_found:
  assumes "on_valid_response vf d sid msg f b = Some (sid', f', b')"
  shows "f' = f \<or> (\<exists>req. f' = f @ [(req, arbitration_id msg)])"
  using assms
  by (auto simp: on_valid_response_def Let_def split: if_splits option.splits)

lemma listen_responses_unlisted:
  assumes "listen bl vf d e sid f b = Some (sid', f', b')"
    and "\<forall>p\<in>set f. snd p \<notin> set bl"
  shows "\<forall>p\<in>set f'. snd p \<notin> set bl"
proof (rule listen_invariant [OF assms(1), where P = "\<lambda>sid f b. \<forall>p\<in>set f. snd p \<notin> set bl"])
  show "\<forall>p\<in>set f. snd p \<notin> set bl"
    by (fact assms(2))
next
  fix sid f b msg sid2 f2 b2
  assume inv: "\<forall>p\<in>set f. snd p \<notin> set bl"
    and unlisted: "arbitration_id msg \<notin> set bl"
    and hit: "on_valid_response vf d sid msg f b = Some (sid2, f2, b2)"
  from on_valid_response_found [OF hit] inv unlisted
  show "\<forall>p\<in>set f2. snd p \<notin> set bl"
    by auto
qed

lemma scan_responses_unlisted:
  assumes "scan bl vf d mx sid f b = Some (f', b')"
    and "\<forall>p\<in>set f. snd p \<notin> set bl"
  shows "\<forall>p\<in>set f'. snd p \<notin> set bl"
proof (rule scan_invariant [OF assms(1), where Q = "\<lambda>f b. \<forall>p\<in>set f. snd p \<notin> set bl"])
  show "\<forall>p\<in>set f. snd p \<notin> set bl"
    by (fact assms(2))
next
  fix sid f b t later sid2 f2 b2
  assume "\<forall>p\<in>set f. snd p \<notin> set bl"
    and "listen bl vf d (t + d) (sid + 1) f (emit (Transmit (sid + 1)) b\<lparr>now := later\<rparr>)
           = Some (sid2, f2, b2)"
  then show "\<forall>p\<in>set f2. snd p \<notin> set bl"
    by (rule listen_responses_unlisted [rotated])
qed

text \<open>
  C4 as stated fails for request ids: the blacklist is only consulted for the arbitration id
  of a received message. Scanning request id \<open>0x7E0\<close> with the blacklist \<open>[0x7E0]\<close>,
  a reply from \<open>0x7E8\<close> makes the scanner record the pair \<open>(0x7E0, 0x7E8)\<close>.
\<close>

theorem discovery_blacklisted_request_counterexample:
  "uds_discovery
     \<lparr>ARBITRATION_ID_MIN = 0, ARBITRATION_ID_MAX = 0x7FF, ARBITRATION_ID_MAX_EXTENDED = 0x1FFFFFFF\<rparr>
     [] (Some 0x7E0) (Some 0x7E0) (Some [0x7E0]) None (1 / 100) False
     \<lparr>now = [0, 0, 1],
      rx = [Some \<lparr>arbitration_id = 0x7E8, data = [0x06, 0x50, 0x01, 0x00, 0x32, 0x01, 0xF4, 0x00]\<rparr>],
      trace = []\<rparr>
   = Some (Inr [(0x7E0, 0x7E8)], \<lparr>now = [], rx = [], trace = [Open_bus, Transmit 0x7E0]\<rparr>)
   \<and> 0x7E0 \<in> set [0x7E0 :: int]"
  by (simp add: uds_discovery_def scan.simps listen.simps recv_def emit_def
      on_valid_response_def is_valid_response_def DiagnosticSessionControl_valid_responses_def)

text \<open>
  C4, amended: for every execution of \<^verbatim>\<open>uds_discovery\<close> with a user-supplied blacklist,
  no response id of a pair in the returned list is a member of that blacklist.
\<close>

theorem discovery_excludes_blacklisted_responses:
  assumes "uds_discovery consts auto_ids min_id max_id (Some blacklist)
             auto_blacklist_duration delay verify b = Some (Inr found, b')"
    and "(request_id, response_id) \<in> set found"
  shows "response_id \<notin> set blacklist"
proof -
  note unfolded = uds_discovery_unfold [OF refl refl refl refl,
      of "consts" auto_ids min_id max_id "Some blacklist" auto_blacklist_duration delay verify b]
  from assms(1) obtain bl lo hi b0 where
    run: "scan bl verify delay hi lo [] b0 = Some (found, b')" and
    bl: "set blacklist \<subseteq> set bl"
    unfolding unfolded by (auto split: if_splits option.splits)
  have "\<forall>p\<in>set found. snd p \<notin> set bl"
    by (rule scan_responses_unlisted [OF run]) simp
  with assms(2) bl show ?thesis
    by force
qed

theorem discovery_excludes_blacklisted_responses_witness:
  "uds_discovery
     \<lparr>ARBITRATION_ID_MIN = 0, ARBITRATION_ID_MAX = 0x7FF, ARBITRATION_ID_MAX_EXTENDED = 0x1FFFFFFF\<rparr>
     [] (Some 0x7E0) (Some 0x7E0) (Some [0x7E8]) None (1 / 100) False
     \<lparr>now = [0, 0, 0, 1],
      rx = [Some \<lparr>arbitration_id = 0x7E8, data = [0x06, 0x50, 0x01, 0x00, 0x32, 0x01, 0xF4, 0x00]\<rparr>,
            Some \<lparr>arbitration_id = 0x7E9, data = [0x03, 0x7F, 0x10, 0x12]\<rparr>],
      trace = []\<rparr>
   = Some (Inr [(0x7E0, 0x7E9)], \<lparr>now = [], rx = [], trace = [Open_bus, Transmit 0x7E0]\<rparr>)
   \<and> (0x7E0, 0x7E9) \<in> set [(0x7E0 :: int, 0x7E9 :: int)]
   \<and> 0x7E9 \<notin> set [0x7E8 :: int]"
proof -
  have run: "uds_discovery
     \<lparr>ARBITRATION_ID_MIN = 0, ARBITRATION_ID_MAX = 0x7FF, ARBITRATION_ID_MAX_EXTENDED = 0x1FFFFFFF\<rparr>
     [] (Some 0x7E0) (Some 0x7E0) (Some [0x7E8]) None (1 / 100) False
     \<lparr>now = [0, 0, 0, 1],
      rx = [Some \<lparr>arbitration_id = 0x7E8, data = [0x06, 0x50, 0x01, 0x00, 0x32, 0x01, 0xF4, 0x00]\<rparr>,
            Some \<lparr>arbitration_id = 0x7E9, data = [0x03, 0x7F, 0x10, 0x12]\<rparr>],
      trace = []\<rparr>
   = Some (Inr [(0x7E0, 0x7E9)], \<lparr>now = [], rx = [], trace = [Open_bus, Transmit 0x7E0]\<rparr>)"
    by (simp add: uds_discovery_def scan.simps listen.simps recv_def emit_def
        on_valid_response_def is_valid_response_def DiagnosticSessionControl_valid_responses_def)
  have recorded: "(0x7E0, 0x7E9) \<in> set [(0x7E0 :: int, 0x7E9 :: int)]"
    by simp
  from run recorded discovery_excludes_blacklisted_responses [OF run recorded]
  show ?thesis
    by simp
qed



lemma recv_cases:
  obtains (silent) "rx b = []" "recv b = (None, b)"
  | (message) m queued where "rx b = m # queued" "recv b = (m, b\<lparr>rx := queued\<rparr>)"
  by (cases "rx b") (auto simp: recv_def)




















end
